theory Spec2Isabelle
  imports Main "HOL-Library.Word"
begin

unbundle bit_operations_syntax

section \<open>Data model (adler32memcpy.h)\<close>

type_synonym uint64 = "64 word"
type_synonym uint = "32 word"

text \<open>
  \<^verbatim>\<open>struct AdlerChecksum { std::array<uint64, 2> a {1, 1}; std::array<uint64, 2> b {0, 0}; }\<close>.
  A \<^verbatim>\<open>std::array<uint64, 2>\<close> holds exactly two words, so it is a pair; the
  first component is element 0.
\<close>

record AdlerChecksum =
  a :: "uint64 \<times> uint64"
  b :: "uint64 \<times> uint64"

text \<open>The value of \<^verbatim>\<open>AdlerChecksum ret{}\<close>: the default member initialisers.\<close>

definition AdlerChecksum_init :: AdlerChecksum where
  "AdlerChecksum_init = \<lparr>a = (1, 1), b = (0, 0)\<rparr>"

text \<open>
  Undefined behaviour of the C++ (an access outside the object or buffer it indexes) is
  an explicit error value of the model.
\<close>

datatype error = OutOfBounds

text \<open>\<^verbatim>\<open>operator[]\<close> of a two-element \<^verbatim>\<open>std::array\<close>.\<close>

definition array_at :: "'x \<times> 'x \<Rightarrow> nat \<Rightarrow> error + 'x" where
  "array_at arr i =
     (if i = 0 then Inr (fst arr) else if i = 1 then Inr (snd arr) else Inl OutOfBounds)"

text \<open>
  Modelled from the spec: the member function \<^verbatim>\<open>AdlerChecksum::increment\<close> is called
  by adler32memcpy.cc but its body is not among the source files. Section 4.1 of the
  specification gives it as the eight assignments below, in this order, on unsigned
  64-bit lanes (so every addition is modulo \<open>2 ^ 64\<close>).
\<close>

definition increment ::
  "AdlerChecksum \<Rightarrow> uint64 \<times> uint64 \<times> uint64 \<times> uint64 \<Rightarrow> AdlerChecksum" where
  "increment s d =
     (case d of (d0, d1, d2, d3) \<Rightarrow>
        let a0 = fst (a s); a1 = snd (a s); b0 = fst (b s); b1 = snd (b s);
            a0 = a0 + d0; b0 = b0 + a0;
            a0 = a0 + d1; b0 = b0 + a0;
            a1 = a1 + d2; b1 = b1 + a1;
            a1 = a1 + d3; b1 = b1 + a1
        in \<lparr>a = (a0, a1), b = (b0, b1)\<rparr>)"

section \<open>Memory\<close>

text \<open>
  The buffers are caller-owned regions of one address space. Addresses count 64-bit
  words (both pointers are \<^verbatim>\<open>uint64 *\<close>); a cell that is not allocated is \<open>None\<close>,
  and touching it is the error \<open>OutOfBounds\<close>.
\<close>

type_synonym memory = "nat \<Rightarrow> uint64 option"

definition load :: "memory \<Rightarrow> nat \<Rightarrow> error + uint64" where
  "load mem p = (case mem p of None \<Rightarrow> Inl OutOfBounds | Some v \<Rightarrow> Inr v)"

text \<open>\<^verbatim>\<open>__builtin_nontemporal_store(value, pointer)\<close>: a store; the cache hint has no value semantics.\<close>

definition nontemporal_store :: "uint64 \<Rightarrow> nat \<Rightarrow> memory \<Rightarrow> error + memory" where
  "nontemporal_store v p mem =
     (case mem p of None \<Rightarrow> Inl OutOfBounds | Some old \<Rightarrow> Inr (mem(p \<mapsto> v)))"

text \<open>
  Modelled from the spec: the template \<^verbatim>\<open>extractData<N>(pointer)\<close> is called by
  \<^verbatim>\<open>AdlerMemcpyC\<close> but not defined among the source files. Section 4.3 step (1)
  of the specification says it reads \<open>N\<close> consecutive words from the source, returned
  as a \<^verbatim>\<open>std::array<uint64, N>\<close>.
\<close>

primrec extractData :: "nat \<Rightarrow> memory \<Rightarrow> nat \<Rightarrow> error + uint64 list" where
  "extractData 0 mem p = Inr []"
| "extractData (Suc n) mem p =
     (case load mem p of
        Inl e \<Rightarrow> Inl e
      | Inr v \<Rightarrow> (case extractData n mem (Suc p) of
                   Inl e \<Rightarrow> Inl e
                 | Inr vs \<Rightarrow> Inr (v # vs)))"

section \<open>CalculateAdlerChecksum (adler32memcpy.cc, lines 74-94)\<close>

text \<open>
  The loop \<^verbatim>\<open>for (unsigned i = 0; i < count; i += 4)\<close>. The counter is a 32-bit
  unsigned value and its additions wrap; a run that never leaves the loop is \<open>None\<close>.
\<close>

partial_function (option) CalculateAdlerChecksum_loop ::
  "memory \<Rightarrow> nat \<Rightarrow> uint \<Rightarrow> uint \<Rightarrow> AdlerChecksum \<Rightarrow> (error + AdlerChecksum) option" where
  "CalculateAdlerChecksum_loop mem data64 count i ret =
     (if i < count then
        (case load mem (data64 + unat i) of Inl e \<Rightarrow> Some (Inl e) | Inr d0 \<Rightarrow>
        (case load mem (data64 + unat (i + 1)) of Inl e \<Rightarrow> Some (Inl e) | Inr d1 \<Rightarrow>
        (case load mem (data64 + unat (i + 2)) of Inl e \<Rightarrow> Some (Inl e) | Inr d2 \<Rightarrow>
        (case load mem (data64 + unat (i + 3)) of Inl e \<Rightarrow> Some (Inl e) | Inr d3 \<Rightarrow>
           CalculateAdlerChecksum_loop mem data64 count (i + 4)
             (increment ret (d0, d1, d2, d3))))))
      else Some (Inr ret))"

declare CalculateAdlerChecksum_loop.simps [code]

text \<open>
  \<^verbatim>\<open>count = size_in_bytes / sizeof(data)\<close> is the byte length divided by 8, rounded
  down, and \<^verbatim>\<open>(1U) << 19\<close> is \<open>2 ^ 19\<close> as a 32-bit value. The result is the
  returned flag together with the object behind \<^verbatim>\<open>checksum\<close>, which the function
  assigns only on the successful path.
\<close>

definition CalculateAdlerChecksum ::
  "memory \<Rightarrow> nat \<Rightarrow> uint \<Rightarrow> AdlerChecksum \<Rightarrow> (error + bool \<times> AdlerChecksum) option" where
  "CalculateAdlerChecksum mem data64 size_in_bytes checksum =
     (let count = size_in_bytes div 8 in
      if count > push_bit 19 1 then Some (Inr (False, checksum))
      else (case CalculateAdlerChecksum_loop mem data64 count 0 AdlerChecksum_init of
              None \<Rightarrow> None
            | Some (Inl e) \<Rightarrow> Some (Inl e)
            | Some (Inr ret) \<Rightarrow> Some (Inr (True, ret))))"

section \<open>AdlerMemcpyC and its variants (adler32memcpy.cc, lines 97-132)\<close>

text \<open>The inner loop \<^verbatim>\<open>for (int j = 0; j < 8; ++j)\<close> storing \<^verbatim>\<open>buffer[j]\<close> at \<^verbatim>\<open>dstmem64 + i + j\<close>.\<close>

function AdlerMemcpyC_store_loop ::
  "uint64 list \<Rightarrow> nat \<Rightarrow> nat \<Rightarrow> memory \<Rightarrow> error + memory" where
  "AdlerMemcpyC_store_loop buffer p j mem =
     (if j < 8 then
        (case nontemporal_store (buffer ! j) (p + j) mem of
           Inl e \<Rightarrow> Inl e
         | Inr mem' \<Rightarrow> AdlerMemcpyC_store_loop buffer p (j + 1) mem')
      else Inr mem)"
  by pat_completeness auto
termination
  by (relation "measure (\<lambda>(buffer, p, j, mem). 8 - j)") auto

declare AdlerMemcpyC_store_loop.simps [simp del]

text \<open>The outer loop \<^verbatim>\<open>for (unsigned int i = 0; i < count; i += 8)\<close>.\<close>

partial_function (option) AdlerMemcpyC_loop ::
  "memory \<Rightarrow> nat \<Rightarrow> nat \<Rightarrow> uint \<Rightarrow> uint \<Rightarrow> AdlerChecksum
     \<Rightarrow> (error + AdlerChecksum \<times> memory) option" where
  "AdlerMemcpyC_loop mem dstmem64 srcmem64 count i ret =
     (if i < count then
        (case extractData 8 mem (srcmem64 + unat i) of
           Inl e \<Rightarrow> Some (Inl e)
         | Inr buffer \<Rightarrow>
             (let ret1 = increment ret (buffer ! 0, buffer ! 1, buffer ! 2, buffer ! 3);
                  ret2 = increment ret1 (buffer ! 4, buffer ! 5, buffer ! 6, buffer ! 7)
              in (case AdlerMemcpyC_store_loop buffer (dstmem64 + unat i) 0 mem of
                    Inl e \<Rightarrow> Some (Inl e)
                  | Inr mem' \<Rightarrow> AdlerMemcpyC_loop mem' dstmem64 srcmem64 count (i + 8) ret2)))
      else Some (Inr (ret, mem)))"

declare AdlerMemcpyC_loop.simps [code]

definition AdlerMemcpyC ::
  "memory \<Rightarrow> nat \<Rightarrow> nat \<Rightarrow> uint \<Rightarrow> AdlerChecksum
     \<Rightarrow> (error + bool \<times> AdlerChecksum \<times> memory) option" where
  "AdlerMemcpyC mem dstmem64 srcmem64 size_in_bytes checksum =
     (let count = size_in_bytes div 8 in
      if count > push_bit 19 1 then Some (Inr (False, checksum, mem))
      else (case AdlerMemcpyC_loop mem dstmem64 srcmem64 count 0 AdlerChecksum_init of
              None \<Rightarrow> None
            | Some (Inl e) \<Rightarrow> Some (Inl e)
            | Some (Inr (ret, mem')) \<Rightarrow> Some (Inr (True, ret, mem'))))"

definition AdlerMemcpyWarmC ::
  "memory \<Rightarrow> nat \<Rightarrow> nat \<Rightarrow> uint \<Rightarrow> AdlerChecksum
     \<Rightarrow> (error + bool \<times> AdlerChecksum \<times> memory) option" where
  "AdlerMemcpyWarmC mem dstmem64 srcmem64 size_in_bytes checksum =
     AdlerMemcpyC mem dstmem64 srcmem64 size_in_bytes checksum"

definition AdlerMemcpyAsm ::
  "memory \<Rightarrow> nat \<Rightarrow> nat \<Rightarrow> uint \<Rightarrow> AdlerChecksum
     \<Rightarrow> (error + bool \<times> AdlerChecksum \<times> memory) option" where
  "AdlerMemcpyAsm mem dstmem64 srcmem64 size_in_bytes checksum =
     AdlerMemcpyC mem dstmem64 srcmem64 size_in_bytes checksum"

section \<open>AdlerChecksum::ToHexString (adler32memcpy.cc, lines 67-71)\<close>

definition hex_digit :: "nat \<Rightarrow> char" where
  "hex_digit n = ''0123456789abcdef'' ! (n mod 16)"

text \<open>The conversion \<^verbatim>\<open>%016llx\<close>: sixteen lowercase hexadecimal digits, zero padded.\<close>

definition hex016 :: "uint64 \<Rightarrow> string" where
  "hex016 w = map (\<lambda>k. hex_digit (unat (drop_bit (4 * k) w AND 15))) (rev [0..<16])"

fun join_spaces :: "string list \<Rightarrow> string" where
  "join_spaces [] = []"
| "join_spaces [f] = f"
| "join_spaces (f # g # fs) = f @ '' '' @ join_spaces (g # fs)"

text \<open>\<^verbatim>\<open>snprintf(buffer, size, ...)\<close> keeps at most \<open>n - 1\<close> characters of the output, \<open>n\<close> the buffer size.\<close>

definition snprintf_hex :: "nat \<Rightarrow> uint64 list \<Rightarrow> string" where
  "snprintf_hex n ws = take (n - 1) (join_spaces (map hex016 ws))"

text \<open>Evaluating the argument list: the first failing access decides.\<close>

fun collect :: "(error + 'x) list \<Rightarrow> error + 'x list" where
  "collect [] = Inr []"
| "collect (Inl e # rs) = Inl e"
| "collect (Inr v # rs) = (case collect rs of Inl e \<Rightarrow> Inl e | Inr vs \<Rightarrow> Inr (v # vs))"

definition ToHexString :: "AdlerChecksum \<Rightarrow> error + string" where
  "ToHexString s =
     (case collect [array_at (a s) 0, array_at (a s) 1, array_at (a s) 2, array_at (a s) 3,
                    array_at (b s) 0, array_at (b s) 1, array_at (b s) 2, array_at (b s) 3] of
        Inl e \<Rightarrow> Inl e
      | Inr args \<Rightarrow> Inr (snprintf_hex 128 args))"

section \<open>Vocabulary of the properties\<close>

text \<open>The \<open>n\<close> words starting at \<open>p\<close> are allocated.\<close>

definition allocated :: "memory \<Rightarrow> nat \<Rightarrow> nat \<Rightarrow> bool" where
  "allocated mem p n = (\<forall>k<n. mem (p + k) \<noteq> None)"

text \<open>Two regions of \<open>n\<close> words do not overlap.\<close>

definition disjoint :: "nat \<Rightarrow> nat \<Rightarrow> nat \<Rightarrow> bool" where
  "disjoint p q n = (p + n \<le> q \<or> q + n \<le> p)"

text \<open>The content of a region, and a memory holding a given content at a base address.\<close>

primrec words_at :: "memory \<Rightarrow> nat \<Rightarrow> nat \<Rightarrow> uint64 list" where
  "words_at mem p 0 = []"
| "words_at mem p (Suc n) = the (mem p) # words_at mem (Suc p) n"

definition memory_of :: "nat \<Rightarrow> uint64 list \<Rightarrow> memory" where
  "memory_of base ws =
     (\<lambda>p. if base \<le> p \<and> p < base + length ws then Some (ws ! (p - base)) else None)"

text \<open>The checksum of a word list, four words per \<open>increment\<close>, front to back.\<close>

fun adler_fold :: "AdlerChecksum \<Rightarrow> uint64 list \<Rightarrow> AdlerChecksum" where
  "adler_fold s (d0 # d1 # d2 # d3 # ds) = adler_fold (increment s (d0, d1, d2, d3)) ds"
| "adler_fold s ds = s"

text \<open>A call returned, without undefined behaviour, and its flag is \<^verbatim>\<open>true\<close>.\<close>

definition succeeded :: "(error + bool \<times> 'x) option \<Rightarrow> bool" where
  "succeeded r = (case r of Some (Inr (ok, x)) \<Rightarrow> ok | Some (Inl e) \<Rightarrow> False | None \<Rightarrow> False)"

text \<open>No lane of the second state is below the same lane of the first.\<close>

definition lanes_le :: "AdlerChecksum \<Rightarrow> AdlerChecksum \<Rightarrow> bool" where
  "lanes_le s t =
     (fst (a s) \<le> fst (a t) \<and> snd (a s) \<le> snd (a t) \<and>
      fst (b s) \<le> fst (b t) \<and> snd (b s) \<le> snd (b t))"

text \<open>The memory after the eight stores of one iteration: \<open>buffer\<close> written at \<open>q\<close>.\<close>

definition store8 :: "uint64 list \<Rightarrow> nat \<Rightarrow> memory \<Rightarrow> memory" where
  "store8 buffer q mem = (\<lambda>x. if q \<le> x \<and> x < q + 8 then Some (buffer ! (x - q)) else mem x)"

section \<open>Auxiliary lemmas\<close>

lemma load_Some: "mem p = Some v \<Longrightarrow> load mem p = Inr v"
  by (simp add: load_def)

lemma load_allocated:
  "allocated mem p n \<Longrightarrow> k < n \<Longrightarrow> load mem (p + k) = Inr (the (mem (p + k)))"
  by (auto simp: allocated_def load_def split: option.splits)

lemma unat_plus_small:
  fixes i :: uint
  shows "unat i + unat k < 2 ^ 32 \<Longrightarrow> unat (i + k) = unat i + unat k"
  using unat_add_lem [of i k] by simp

lemma words_at_4:
  assumes "4 \<le> n"
  shows "words_at mem p n =
     the (mem p) # the (mem (p + 1)) # the (mem (p + 2)) # the (mem (p + 3)) # words_at mem (p + 4) (n - 4)"
proof -
  from assms have n: "n = Suc (Suc (Suc (Suc (n - 4))))"
    by arith
  show ?thesis
    by (subst n) (simp add: eval_nat_numeral)
qed

lemma length_words_at: "length (words_at mem p n) = n"
  by (induction n arbitrary: p) simp_all

lemma nth_words_at: "k < n \<Longrightarrow> words_at mem p n ! k = the (mem (p + k))"
proof (induction n arbitrary: p k)
  case 0
  then show ?case by simp
next
  case (Suc n)
  then show ?case by (cases k) simp_all
qed

lemma CalculateAdlerChecksum_loop_exit:
  "\<not> i < count \<Longrightarrow> CalculateAdlerChecksum_loop mem p count i ret = Some (Inr ret)"
  by (subst CalculateAdlerChecksum_loop.simps) simp

lemma CalculateAdlerChecksum_loop_step:
  assumes "i < count"
    and "load mem (p + unat i) = Inr d0" and "load mem (p + unat (i + 1)) = Inr d1"
    and "load mem (p + unat (i + 2)) = Inr d2" and "load mem (p + unat (i + 3)) = Inr d3"
  shows "CalculateAdlerChecksum_loop mem p count i ret =
           CalculateAdlerChecksum_loop mem p count (i + 4) (increment ret (d0, d1, d2, d3))"
  by (subst CalculateAdlerChecksum_loop.simps) (simp add: assms)

lemma CalculateAdlerChecksum_loop_correct:
  assumes "allocated mem p (unat count)" and "unat count \<le> 2 ^ 19"
    and "unat i \<le> unat count" and "4 dvd unat i" and "4 dvd unat count"
  shows "CalculateAdlerChecksum_loop mem p count i ret =
           Some (Inr (adler_fold ret (words_at mem (p + unat i) (unat count - unat i))))"
  using assms(3,4)
proof (induction "unat count - unat i" arbitrary: i ret rule: less_induct)
  case less
  show ?case
  proof (cases "i < count")
    case False
    then have "unat count - unat i = 0" by (simp add: word_less_nat_alt)
    with False show ?thesis
      by (simp add: CalculateAdlerChecksum_loop_exit)
  next
    case True
    then have lt: "unat i < unat count" by (simp add: word_less_nat_alt)
    with less.prems assms(5) have room: "unat i + 4 \<le> unat count"
      by (auto elim!: dvdE)
    with assms(2) have small: "unat i + 4 < 2 ^ 32" by simp
    have u1: "unat (i + 1) = unat i + 1" and u2: "unat (i + 2) = unat i + 2"
      and u3: "unat (i + 3) = unat i + 3" and u4: "unat (i + 4) = unat i + 4"
      using small by (simp_all add: unat_plus_small)
    have l0: "load mem (p + unat i) = Inr (the (mem (p + unat i)))"
      using load_allocated [OF assms(1), of "unat i"] lt by simp
    have l1: "load mem (p + unat (i + 1)) = Inr (the (mem (p + (unat i + 1))))"
      using load_allocated [OF assms(1), of "unat i + 1"] room by (simp add: u1)
    have l2: "load mem (p + unat (i + 2)) = Inr (the (mem (p + (unat i + 2))))"
      using load_allocated [OF assms(1), of "unat i + 2"] room by (simp add: u2)
    have l3: "load mem (p + unat (i + 3)) = Inr (the (mem (p + (unat i + 3))))"
      using load_allocated [OF assms(1), of "unat i + 3"] room by (simp add: u3)
    have IH: "CalculateAdlerChecksum_loop mem p count (i + 4) r =
           Some (Inr (adler_fold r (words_at mem (p + unat (i + 4)) (unat count - unat (i + 4)))))" for r
      using less.hyps [of "i + 4" r] room less.prems u4 by simp
    have w: "words_at mem (p + unat i) (unat count - unat i) =
        the (mem (p + unat i)) # the (mem (p + (unat i + 1))) # the (mem (p + (unat i + 2)))
          # the (mem (p + (unat i + 3))) # words_at mem (p + unat (i + 4)) (unat count - unat (i + 4))"
      using words_at_4 [of "unat count - unat i" mem "p + unat i"] room
      by (simp add: u4 add.assoc)
    show ?thesis
      unfolding CalculateAdlerChecksum_loop_step [OF True l0 l1 l2 l3] IH w
      by (simp only: adler_fold.simps)
  qed
qed


lemma allocated_Suc: "allocated mem p (Suc n) \<longleftrightarrow> mem p \<noteq> None \<and> allocated mem (Suc p) n"
proof
  assume h: "allocated mem p (Suc n)"
  have "mem p \<noteq> None" using h [unfolded allocated_def, rule_format, of 0] by simp
  moreover have "allocated mem (Suc p) n"
    unfolding allocated_def
  proof (intro allI impI)
    fix k assume "k < n"
    then show "mem (Suc p + k) \<noteq> None"
      using h [unfolded allocated_def, rule_format, of "Suc k"] by simp
  qed
  ultimately show "mem p \<noteq> None \<and> allocated mem (Suc p) n" ..
next
  assume h: "mem p \<noteq> None \<and> allocated mem (Suc p) n"
  show "allocated mem p (Suc n)"
    unfolding allocated_def
  proof (intro allI impI)
    fix k assume k: "k < Suc n"
    show "mem (p + k) \<noteq> None"
    proof (cases k)
      case 0
      with h show ?thesis by simp
    next
      case (Suc j)
      with k h show ?thesis by (simp add: allocated_def)
    qed
  qed
qed

lemma allocated_sub:
  "allocated mem p n \<Longrightarrow> k + m \<le> n \<Longrightarrow> allocated mem (p + k) m"
  by (simp add: allocated_def add.assoc)

lemma extractData_allocated:
  "allocated mem p n \<Longrightarrow> extractData n mem p = Inr (words_at mem p n)"
proof (induction n arbitrary: p)
  case 0
  show ?case by simp
next
  case (Suc n)
  from Suc.prems have "mem p \<noteq> None" and "allocated mem (Suc p) n"
    by (simp_all add: allocated_Suc)
  then show ?case
    using Suc.IH [of "Suc p"] by (auto simp: load_def)
qed

lemma AdlerMemcpyC_store_loop_correct:
  "allocated mem q 8 \<Longrightarrow> j \<le> 8 \<Longrightarrow>
   AdlerMemcpyC_store_loop buffer q j mem =
     Inr (\<lambda>x. if q + j \<le> x \<and> x < q + 8 then Some (buffer ! (x - q)) else mem x)"
proof (induction buffer q j mem rule: AdlerMemcpyC_store_loop.induct)
  case (1 buffer q j mem)
  show ?case
  proof (cases "j < 8")
    case False
    with "1.prems" have "j = 8" by simp
    then show ?thesis
      by (subst AdlerMemcpyC_store_loop.simps) (auto simp: fun_eq_iff)
  next
    case True
    from "1.prems"(1) True obtain old where old: "mem (q + j) = Some old"
      by (auto simp: allocated_def)
    let ?mem' = "mem(q + j \<mapsto> buffer ! j)"
    have st: "nontemporal_store (buffer ! j) (q + j) mem = Inr ?mem'"
      by (simp add: nontemporal_store_def old)
    have al: "allocated ?mem' q 8"
      using "1.prems"(1) by (simp add: allocated_def)
    have IH: "AdlerMemcpyC_store_loop buffer q (j + 1) ?mem' =
        Inr (\<lambda>x. if q + (j + 1) \<le> x \<and> x < q + 8 then Some (buffer ! (x - q)) else ?mem' x)"
      by (rule "1.IH" [OF True st al]) (use True in simp)
    have eq: "(\<lambda>x. if q + (j + 1) \<le> x \<and> x < q + 8 then Some (buffer ! (x - q)) else ?mem' x) =
          (\<lambda>x. if q + j \<le> x \<and> x < q + 8 then Some (buffer ! (x - q)) else mem x)"
      using True by (auto simp: fun_eq_iff)
    show ?thesis
      by (subst AdlerMemcpyC_store_loop.simps) (simp only: True if_True st sum.case IH eq)
  qed
qed

lemma AdlerMemcpyC_store_loop_store8:
  "allocated mem q 8 \<Longrightarrow> AdlerMemcpyC_store_loop buffer q 0 mem = Inr (store8 buffer q mem)"
  using AdlerMemcpyC_store_loop_correct [of mem q 0 buffer] by (simp add: store8_def)

lemma AdlerMemcpyC_loop_exit:
  "\<not> i < count \<Longrightarrow> AdlerMemcpyC_loop mem dst src count i ret = Some (Inr (ret, mem))"
  by (subst AdlerMemcpyC_loop.simps) simp

lemma adler_fold_8:
  "length ws = 8 \<Longrightarrow>
   increment (increment ret (ws ! 0, ws ! 1, ws ! 2, ws ! 3)) (ws ! 4, ws ! 5, ws ! 6, ws ! 7)
     = adler_fold ret ws"
  by (auto simp: length_Suc_conv eval_nat_numeral)

lemma AdlerMemcpyC_loop_step:
  assumes "i < count"
    and "allocated mem (src + unat i) 8" and "allocated mem (dst + unat i) 8"
  shows "AdlerMemcpyC_loop mem dst src count i ret =
           AdlerMemcpyC_loop (store8 (words_at mem (src + unat i) 8) (dst + unat i) mem)
             dst src count (i + 8) (adler_fold ret (words_at mem (src + unat i) 8))"
  by (subst AdlerMemcpyC_loop.simps)
     (simp only: assms extractData_allocated AdlerMemcpyC_store_loop_store8 if_True
        sum.case Let_def adler_fold_8 length_words_at)


lemma unat_plus_8:
  fixes i :: uint
  shows "unat i + 8 < 2 ^ 32 \<Longrightarrow> unat (i + 8) = unat i + 8"
  using unat_plus_small [of i 8] by simp

lemma words_at_cong:
  "(\<And>k. k < n \<Longrightarrow> mem1 (p + k) = mem2 (p + k)) \<Longrightarrow> words_at mem1 p n = words_at mem2 p n"
proof (induction n arbitrary: p)
  case 0
  show ?case by simp
next
  case (Suc n)
  have "mem1 p = mem2 p" using Suc.prems [of 0] by simp
  moreover have "words_at mem1 (Suc p) n = words_at mem2 (Suc p) n"
  proof (rule Suc.IH)
    fix k assume "k < n"
    then show "mem1 (Suc p + k) = mem2 (Suc p + k)"
      using Suc.prems [of "Suc k"] by simp
  qed
  ultimately show ?case by simp
qed

lemma words_at_append:
  "words_at mem p (m + n) = words_at mem p m @ words_at mem (p + m) n"
  by (induction m arbitrary: p) simp_all

lemma adler_fold_append_8:
  "length ws = 8 \<Longrightarrow> adler_fold ret (ws @ vs) = adler_fold (adler_fold ret ws) vs"
  by (auto simp: length_Suc_conv eval_nat_numeral)

lemma allocated_store8:
  "allocated mem p n \<Longrightarrow> allocated (store8 buffer q mem) p n"
  by (simp add: allocated_def store8_def)

lemma AdlerMemcpyC_loop_correct:
  assumes "unat count \<le> 2 ^ 19" and "8 dvd unat count"
    and "disjoint src dst (unat count)"
  shows "allocated mem src (unat count) \<Longrightarrow> allocated mem dst (unat count) \<Longrightarrow>
         unat i \<le> unat count \<Longrightarrow> 8 dvd unat i \<Longrightarrow>
         AdlerMemcpyC_loop mem dst src count i ret =
           Some (Inr (adler_fold ret (words_at mem (src + unat i) (unat count - unat i)),
                      (\<lambda>x. if dst + unat i \<le> x \<and> x < dst + unat count
                            then mem (src + (x - dst)) else mem x)))"
proof (induction "unat count - unat i" arbitrary: i ret mem rule: less_induct)
  case less
  show ?case
  proof (cases "i < count")
    case False
    then have "unat count \<le> unat i" by (simp add: word_less_nat_alt)
    with False show ?thesis
      by (auto simp: AdlerMemcpyC_loop_exit fun_eq_iff)
  next
    case True
    then have lt: "unat i < unat count" by (simp add: word_less_nat_alt)
    with less.prems assms(2) have room: "unat i + 8 \<le> unat count"
      by (auto elim!: dvdE)
    with assms(1) have u8: "unat (i + 8) = unat i + 8"
      by (simp add: unat_plus_8)
    let ?buffer = "words_at mem (src + unat i) 8"
    let ?mem1 = "store8 ?buffer (dst + unat i) mem"
    let ?ret2 = "adler_fold ret ?buffer"
    have as: "allocated mem (src + unat i) 8" and ad: "allocated mem (dst + unat i) 8"
      using less.prems(1,2) room by (simp_all add: allocated_sub)
    have step: "AdlerMemcpyC_loop mem dst src count i ret =
                AdlerMemcpyC_loop ?mem1 dst src count (i + 8) ?ret2"
      by (rule AdlerMemcpyC_loop_step [OF True as ad])
    have src_same: "?mem1 (src + k) = mem (src + k)" if "k < unat count" for k
      using that assms(3) room by (auto simp: store8_def disjoint_def)
    have IH: "AdlerMemcpyC_loop ?mem1 dst src count (i + 8) ?ret2 =
        Some (Inr (adler_fold ?ret2 (words_at ?mem1 (src + unat (i + 8)) (unat count - unat (i + 8))),
                   (\<lambda>x. if dst + unat (i + 8) \<le> x \<and> x < dst + unat count
                         then ?mem1 (src + (x - dst)) else ?mem1 x)))"
      using less.hyps [of "i + 8" ?mem1 ?ret2] less.prems room u8
      by (simp add: allocated_store8)
    have w1: "words_at ?mem1 (src + unat (i + 8)) (unat count - unat (i + 8)) =
              words_at mem (src + unat (i + 8)) (unat count - unat (i + 8))"
    proof (rule words_at_cong)
      fix k assume "k < unat count - unat (i + 8)"
      then show "?mem1 (src + unat (i + 8) + k) = mem (src + unat (i + 8) + k)"
        using src_same [of "unat i + 8 + k"] by (simp add: u8 add.assoc)
    qed
    have w2: "words_at mem (src + unat i) (unat count - unat i) =
              ?buffer @ words_at mem (src + unat (i + 8)) (unat count - unat (i + 8))"
      using words_at_append [of mem "src + unat i" 8 "unat count - unat i - 8"] room
      by (simp add: u8 add.assoc)
    have fold: "adler_fold ?ret2 (words_at ?mem1 (src + unat (i + 8)) (unat count - unat (i + 8))) =
                adler_fold ret (words_at mem (src + unat i) (unat count - unat i))"
      by (simp only: w1 w2 adler_fold_append_8 length_words_at)
    have memeq: "(\<lambda>x. if dst + unat (i + 8) \<le> x \<and> x < dst + unat count
                         then ?mem1 (src + (x - dst)) else ?mem1 x) =
                 (\<lambda>x. if dst + unat i \<le> x \<and> x < dst + unat count
                         then mem (src + (x - dst)) else mem x)"
    proof (rule ext)
      fix x
      show "(if dst + unat (i + 8) \<le> x \<and> x < dst + unat count
               then ?mem1 (src + (x - dst)) else ?mem1 x) =
            (if dst + unat i \<le> x \<and> x < dst + unat count
               then mem (src + (x - dst)) else mem x)"
      proof (cases "dst + unat i \<le> x \<and> x < dst + unat i + 8")
        case True
        then have k: "x - (dst + unat i) < 8" by arith
        from True room have "x - dst < unat count" by arith
        then have "mem (src + (x - dst)) \<noteq> None"
          by (rule less.prems(1) [unfolded allocated_def, rule_format])
        then obtain v where v: "mem (src + (x - dst)) = Some v"
          by blast
        have idx: "src + unat i + (x - (dst + unat i)) = src + (x - dst)"
          using True by arith
        have "?buffer ! (x - (dst + unat i)) = the (mem (src + unat i + (x - (dst + unat i))))"
          by (rule nth_words_at [OF k])
        then have "?buffer ! (x - (dst + unat i)) = v"
          unfolding idx v by simp
        with True room v show ?thesis
          by (simp add: u8 store8_def)
      next
        case False
        have "?mem1 x = mem x" using False by (auto simp: store8_def)
        moreover have "?mem1 (src + (x - dst)) = mem (src + (x - dst))"
          if "dst + unat i + 8 \<le> x" and "x < dst + unat count"
          using src_same [of "x - dst"] that by simp
        ultimately show ?thesis using False by (auto simp: u8)
      qed
    qed
    show ?thesis
      unfolding step IH fold memeq ..
  qed
qed

lemma unat_count: "unat (sz div 8 :: uint) = unat sz div 8"
  by (simp add: unat_div)

lemma count_gt_iff: "((sz div 8 :: uint) > push_bit 19 1) \<longleftrightarrow> 2 ^ 19 < unat sz div 8"
  by (simp add: word_less_nat_alt unat_div)

lemma AdlerMemcpyC_loop_returns:
  assumes "unat count \<le> 2 ^ 19" and "8 dvd unat count"
  shows "allocated mem src (unat count) \<Longrightarrow> allocated mem dst (unat count) \<Longrightarrow>
         unat i \<le> unat count \<Longrightarrow> 8 dvd unat i \<Longrightarrow>
         \<exists>ret' mem'. AdlerMemcpyC_loop mem dst src count i ret = Some (Inr (ret', mem'))"
proof (induction "unat count - unat i" arbitrary: i ret mem rule: less_induct)
  case less
  show ?case
  proof (cases "i < count")
    case False
    then show ?thesis by (simp add: AdlerMemcpyC_loop_exit)
  next
    case True
    then have lt: "unat i < unat count" by (simp add: word_less_nat_alt)
    with less.prems assms(2) have room: "unat i + 8 \<le> unat count"
      by (auto elim!: dvdE)
    with assms(1) have u8: "unat (i + 8) = unat i + 8"
      by (simp add: unat_plus_8)
    let ?buffer = "words_at mem (src + unat i) 8"
    let ?mem1 = "store8 ?buffer (dst + unat i) mem"
    let ?ret2 = "adler_fold ret ?buffer"
    have as: "allocated mem (src + unat i) 8" and ad: "allocated mem (dst + unat i) 8"
      using less.prems(1,2) room by (simp_all add: allocated_sub)
    have step: "AdlerMemcpyC_loop mem dst src count i ret =
                AdlerMemcpyC_loop ?mem1 dst src count (i + 8) ?ret2"
      by (rule AdlerMemcpyC_loop_step [OF True as ad])
    have "\<exists>ret' mem'. AdlerMemcpyC_loop ?mem1 dst src count (i + 8) ?ret2 = Some (Inr (ret', mem'))"
      using less.hyps [of "i + 8" ?mem1 ?ret2] less.prems room u8
      by (simp add: allocated_store8)
    then show ?thesis unfolding step .
  qed
qed

lemma CalculateAdlerChecksum_too_large:
  "2 ^ 19 < unat sz div 8 \<Longrightarrow> CalculateAdlerChecksum mem p sz ck = Some (Inr (False, ck))"
  by (simp add: CalculateAdlerChecksum_def count_gt_iff Let_def del: push_bit_of_1)

lemma AdlerMemcpyC_too_large:
  "2 ^ 19 < unat sz div 8 \<Longrightarrow> AdlerMemcpyC mem dst src sz ck = Some (Inr (False, ck, mem))"
  by (simp add: AdlerMemcpyC_def count_gt_iff Let_def del: push_bit_of_1)

lemma CalculateAdlerChecksum_ok:
  assumes "unat sz div 8 = n" and "n \<le> 2 ^ 19" and "4 dvd n" and "allocated mem p n"
  shows "CalculateAdlerChecksum mem p sz ck =
           Some (Inr (True, adler_fold AdlerChecksum_init (words_at mem p n)))"
proof -
  have n: "unat (sz div 8) = n" using assms(1) by (simp add: unat_count)
  have "\<not> (sz div 8 > push_bit 19 1)"
    using assms(1,2) by (simp add: count_gt_iff del: push_bit_of_1)
  moreover have "CalculateAdlerChecksum_loop mem p (sz div 8) 0 AdlerChecksum_init =
      Some (Inr (adler_fold AdlerChecksum_init (words_at mem p n)))"
    using CalculateAdlerChecksum_loop_correct [of mem p "sz div 8" 0 AdlerChecksum_init] assms
    by (simp add: n)
  ultimately show ?thesis
    by (simp add: CalculateAdlerChecksum_def Let_def del: push_bit_of_1)
qed

lemma AdlerMemcpyC_ok:
  assumes "unat sz div 8 = n" and "n \<le> 2 ^ 19" and "8 dvd n"
    and "allocated mem src n" and "allocated mem dst n" and "disjoint src dst n"
  shows "AdlerMemcpyC mem dst src sz ck =
           Some (Inr (True, adler_fold AdlerChecksum_init (words_at mem src n),
                      (\<lambda>x. if dst \<le> x \<and> x < dst + n then mem (src + (x - dst)) else mem x)))"
proof -
  have n: "unat (sz div 8) = n" using assms(1) by (simp add: unat_count)
  have "\<not> (sz div 8 > push_bit 19 1)"
    using assms(1,2) by (simp add: count_gt_iff del: push_bit_of_1)
  moreover have "AdlerMemcpyC_loop mem dst src (sz div 8) 0 AdlerChecksum_init =
      Some (Inr (adler_fold AdlerChecksum_init (words_at mem src n),
                 (\<lambda>x. if dst \<le> x \<and> x < dst + n then mem (src + (x - dst)) else mem x)))"
    using AdlerMemcpyC_loop_correct [of "sz div 8" src dst mem 0 AdlerChecksum_init] assms
    by (simp add: n)
  ultimately show ?thesis
    by (simp add: AdlerMemcpyC_def Let_def del: push_bit_of_1)
qed

lemma AdlerMemcpyC_returns:
  assumes "unat sz div 8 = n" and "n \<le> 2 ^ 19" and "8 dvd n"
    and "allocated mem src n" and "allocated mem dst n"
  shows "\<exists>ret mem'. AdlerMemcpyC mem dst src sz ck = Some (Inr (True, ret, mem'))"
proof -
  have n: "unat (sz div 8) = n" using assms(1) by (simp add: unat_count)
  have "\<not> (sz div 8 > push_bit 19 1)"
    using assms(1,2) by (simp add: count_gt_iff del: push_bit_of_1)
  moreover obtain ret mem' where
    "AdlerMemcpyC_loop mem dst src (sz div 8) 0 AdlerChecksum_init = Some (Inr (ret, mem'))"
    using AdlerMemcpyC_loop_returns [of "sz div 8" mem src dst 0 AdlerChecksum_init] assms
    by (auto simp: n)
  ultimately show ?thesis
    by (simp add: AdlerMemcpyC_def Let_def del: push_bit_of_1)
qed

lemma allocated_everywhere: "allocated (\<lambda>p. Some v) p n"
  by (simp add: allocated_def)

text \<open>A buffer that ends inside a group of four is read past its end.\<close>

lemma CalculateAdlerChecksum_partial_group:
  "CalculateAdlerChecksum (memory_of 0 [1, 2]) 0 16 ck = Some (Inl OutOfBounds)"
  by (simp add: CalculateAdlerChecksum_def CalculateAdlerChecksum_loop.simps load_def
      memory_of_def increment_def AdlerChecksum_init_def)

text \<open>The rendering of words by \<^verbatim>\<open>%016llx\<close> and the length of an eight-field line.\<close>

lemma hex016_example: "hex016 3735928559 = ''00000000deadbeef''"
  by (simp add: hex016_def hex_digit_def upt_rec drop_bit_eq_div)

lemma length_hex016: "length (hex016 w) = 16"
  by (simp add: hex016_def)

lemma length_join_spaces:
  "\<forall>f \<in> set fs. length f = 16 \<Longrightarrow> length (join_spaces fs) = 17 * length fs - 1"
  by (induction fs rule: join_spaces.induct) simp_all

lemma snprintf_hex_eight_fields:
  "length ws = 8 \<Longrightarrow> length (snprintf_hex 128 ws) = 127"
  using length_join_spaces [of "map hex016 ws"]
  by (simp add: snprintf_hex_def length_hex016)

lemma snprintf_hex_four_fields:
  "snprintf_hex 128 [1, 1, 0, 0] =
     ''0000000000000001 0000000000000001 0000000000000000 0000000000000000''"
  by (simp add: snprintf_hex_def hex016_def hex_digit_def upt_rec drop_bit_eq_div)

section \<open>The claims\<close>

text \<open>
  Claim C1. A fresh state has \<open>a0 = a1 = 1\<close> and \<open>b0 = b1 = 0\<close>. One
  \<open>increment\<close> with the words \<open>d0, d1, d2, d3\<close> has the effect of the eight
  assignments \<open>a0 += d0; b0 += a0; a0 += d1; b0 += a0; a1 += d2; b1 += a1; a1 += d3;
  b1 += a1\<close> carried out in this order, modulo \<open>2 ^ 64\<close>: the first stream ends at
  \<open>a0 + d0 + d1\<close> and has added both of its intermediate values to \<open>b0\<close>, the
  second stream likewise. The checksum of the single group \<open>[2, 3, 4, 5]\<close> (32
  bytes, at any address) is reported as success with \<open>a0 = 6\<close>, \<open>a1 = 10\<close>,
  \<open>b0 = 9\<close>, \<open>b1 = 15\<close>.
\<close>

theorem C1_increment_and_scenario:
  "AdlerChecksum_init = \<lparr>a = (1, 1), b = (0, 0)\<rparr> \<and>
   increment \<lparr>a = (a0, a1), b = (b0, b1)\<rparr> (d0, d1, d2, d3) =
     \<lparr>a = (a0 + d0 + d1, a1 + d2 + d3),
      b = (b0 + (a0 + d0) + (a0 + d0 + d1), b1 + (a1 + d2) + (a1 + d2 + d3))\<rparr> \<and>
   CalculateAdlerChecksum (memory_of p [2, 3, 4, 5]) p 32 ck =
     Some (Inr (True, \<lparr>a = (6, 10), b = (9, 15)\<rparr>))"
proof -
  have "CalculateAdlerChecksum (memory_of p [2, 3, 4, 5]) p 32 ck =
     Some (Inr (True, \<lparr>a = (6, 10), b = (9, 15)\<rparr>))"
    by (simp add: CalculateAdlerChecksum_def CalculateAdlerChecksum_loop.simps load_def
        memory_of_def increment_def AdlerChecksum_init_def)
  then show ?thesis
    by (simp add: AdlerChecksum_init_def increment_def Let_def)
qed

text \<open>
  Claim C2. For a source of \<open>n\<close> words, \<open>n\<close> a multiple of 8 and within the size
  bound, \<^verbatim>\<open>CalculateAdlerChecksum\<close> over the source and \<^verbatim>\<open>AdlerMemcpyC\<close> of the
  source into a destination both succeed and return one and the same checksum. Source
  and destination are allocated and do not overlap, as the \<^verbatim>\<open>__restrict\<close>
  qualifiers of both pointers demand of every call.
\<close>

theorem C2_checksum_equals_copy_checksum:
  assumes "unat size_in_bytes div 8 = n" and "8 dvd n" and "n \<le> 2 ^ 19"
    and "allocated mem src n" and "allocated mem dst n" and "disjoint src dst n"
  shows "\<exists>ret mem'.
           CalculateAdlerChecksum mem src size_in_bytes ck1 = Some (Inr (True, ret)) \<and>
           AdlerMemcpyC mem dst src size_in_bytes ck2 = Some (Inr (True, ret, mem'))"
proof -
  from assms(2) have "4 dvd n" by (auto elim!: dvdE)
  then show ?thesis
    using CalculateAdlerChecksum_ok [OF assms(1,3) _ assms(4), of ck1]
      AdlerMemcpyC_ok [OF assms(1,3,2,4,5,6), of ck2]
    by simp
qed

text \<open>The hypotheses of C2 hold for eight words copied from address 0 to address 8.\<close>

theorem C2_witness:
  "\<exists>ret mem'.
     CalculateAdlerChecksum (memory_of 0 [1, 2, 3, 4, 5, 6, 7, 8, 0, 0, 0, 0, 0, 0, 0, 0]) 0 64
       AdlerChecksum_init = Some (Inr (True, ret)) \<and>
     AdlerMemcpyC (memory_of 0 [1, 2, 3, 4, 5, 6, 7, 8, 0, 0, 0, 0, 0, 0, 0, 0]) 8 0 64
       AdlerChecksum_init = Some (Inr (True, ret, mem'))"
  using C2_checksum_equals_copy_checksum
    [of 64 8 "memory_of 0 [1, 2, 3, 4, 5, 6, 7, 8, 0, 0, 0, 0, 0, 0, 0, 0]" 0 8
       AdlerChecksum_init AdlerChecksum_init]
  by (simp add: allocated_def memory_of_def disjoint_def)

text \<open>
  Claim C3. For every valid input (\<open>n\<close> words, \<open>n\<close> a multiple of 8 and within
  the size bound, both buffers allocated and not overlapping) \<^verbatim>\<open>AdlerMemcpyC\<close>
  succeeds, and afterwards the \<open>n\<close> cells of the destination hold what the \<open>n\<close>
  cells of the source held when the call was made.
\<close>

theorem C3_copy_fidelity:
  assumes "unat size_in_bytes div 8 = n" and "8 dvd n" and "n \<le> 2 ^ 19"
    and "allocated mem src n" and "allocated mem dst n" and "disjoint src dst n"
  shows "\<exists>ret mem'.
           AdlerMemcpyC mem dst src size_in_bytes ck = Some (Inr (True, ret, mem')) \<and>
           map mem' [dst..<dst + n] = map mem [src..<src + n]"
proof -
  let ?mem' = "\<lambda>x. if dst \<le> x \<and> x < dst + n then mem (src + (x - dst)) else mem x"
  have "map ?mem' [dst..<dst + n] = map mem [src..<src + n]"
    by (rule nth_equalityI) simp_all
  then show ?thesis
    using AdlerMemcpyC_ok [OF assms(1,3,2,4,5,6), of ck] by simp
qed

text \<open>The hypotheses of C3 hold for eight words copied from address 0 to address 8.\<close>

theorem C3_witness:
  "\<exists>ret mem'.
     AdlerMemcpyC (memory_of 0 [1, 2, 3, 4, 5, 6, 7, 8, 0, 0, 0, 0, 0, 0, 0, 0]) 8 0 64
       AdlerChecksum_init = Some (Inr (True, ret, mem')) \<and>
     map mem' [8..<8 + 8] =
       map (memory_of 0 [1, 2, 3, 4, 5, 6, 7, 8, 0, 0, 0, 0, 0, 0, 0, 0]) [0..<0 + 8]"
  using C3_copy_fidelity
    [of 64 8 "memory_of 0 [1, 2, 3, 4, 5, 6, 7, 8, 0, 0, 0, 0, 0, 0, 0, 0]" 0 8
       AdlerChecksum_init]
  by (simp add: allocated_def memory_of_def disjoint_def)

text \<open>
  Claim C4 says that both operations reject every request of \<open>2 ^ 19\<close> words or
  more. The guard of the source is \<^verbatim>\<open>count > (1U) << 19\<close>, under the comment
  that the size must be strictly less than the bound: a request of exactly \<open>2 ^ 19\<close> words
  (\<open>4194304\<close> bytes) passes it, and both operations report success.
\<close>

theorem C4_threshold_accepted:
  "unat (4194304 :: uint) div 8 = 2 ^ 19 \<and>
   succeeded (CalculateAdlerChecksum (\<lambda>p. Some 0) 0 4194304 AdlerChecksum_init) \<and>
   succeeded (AdlerMemcpyC (\<lambda>p. Some 0) 524288 0 4194304 AdlerChecksum_init)"
proof -
  have n: "unat (4194304 :: uint) div 8 = 524288" by simp
  have "succeeded (CalculateAdlerChecksum (\<lambda>p. Some 0) 0 4194304 AdlerChecksum_init)"
    using CalculateAdlerChecksum_ok
      [of 4194304 524288 "\<lambda>p. Some 0" 0 AdlerChecksum_init]
    by (simp add: allocated_everywhere succeeded_def)
  moreover have "succeeded (AdlerMemcpyC (\<lambda>p. Some 0) 524288 0 4194304 AdlerChecksum_init)"
    using AdlerMemcpyC_returns
      [of 4194304 524288 "\<lambda>p. Some 0" 0 524288 AdlerChecksum_init]
    by (auto simp: allocated_everywhere succeeded_def)
  ultimately show ?thesis by simp
qed

text \<open>
  Claim C5. A request of exactly \<open>2 ^ 19\<close> words succeeds (its buffers being
  allocated). A request of \<open>2 ^ 19 + 1\<close> words is answered \<^verbatim>\<open>false\<close>, and then the
  checksum object is the one the caller passed and the memory, the destination buffer
  included, is the memory of the call: nothing was written.
\<close>

theorem C5_boundary:
  "(unat size_eq div 8 = 2 ^ 19 \<and> allocated mem src (2 ^ 19) \<and> allocated mem dst (2 ^ 19) \<longrightarrow>
      succeeded (CalculateAdlerChecksum mem src size_eq ck) \<and>
      succeeded (AdlerMemcpyC mem dst src size_eq ck)) \<and>
   (unat size_above div 8 = 2 ^ 19 + 1 \<longrightarrow>
      CalculateAdlerChecksum mem src size_above ck = Some (Inr (False, ck)) \<and>
      AdlerMemcpyC mem dst src size_above ck = Some (Inr (False, ck, mem)))"
proof (intro conjI impI)
  assume h: "unat size_eq div 8 = 2 ^ 19 \<and> allocated mem src (2 ^ 19) \<and> allocated mem dst (2 ^ 19)"
  then have n: "unat size_eq div 8 = 524288" and s: "allocated mem src 524288"
    and d: "allocated mem dst 524288" by simp_all
  show "succeeded (CalculateAdlerChecksum mem src size_eq ck)"
    using CalculateAdlerChecksum_ok [OF n _ _ s, of ck] by (simp add: succeeded_def)
  show "succeeded (AdlerMemcpyC mem dst src size_eq ck)"
    using AdlerMemcpyC_returns [OF n _ _ s d, of ck] by (auto simp: succeeded_def)
next
  assume "unat size_above div 8 = 2 ^ 19 + 1"
  then have big: "2 ^ 19 < unat size_above div 8" by simp
  show "CalculateAdlerChecksum mem src size_above ck = Some (Inr (False, ck))"
    by (rule CalculateAdlerChecksum_too_large [OF big])
  show "AdlerMemcpyC mem dst src size_above ck = Some (Inr (False, ck, mem))"
    by (rule AdlerMemcpyC_too_large [OF big])
qed

text \<open>
  Both hypotheses of C5 at concrete sizes: \<open>4194304\<close> bytes are \<open>2 ^ 19\<close> words,
  \<open>4194312\<close> bytes are \<open>2 ^ 19 + 1\<close> words.
\<close>

theorem C5_witness:
  "succeeded (CalculateAdlerChecksum (\<lambda>p. Some 0) 0 4194304 \<lparr>a = (7, 8), b = (9, 10)\<rparr>) \<and>
   succeeded (AdlerMemcpyC (\<lambda>p. Some 0) 524288 0 4194304 \<lparr>a = (7, 8), b = (9, 10)\<rparr>) \<and>
   CalculateAdlerChecksum (\<lambda>p. Some 0) 0 4194312 \<lparr>a = (7, 8), b = (9, 10)\<rparr> =
     Some (Inr (False, \<lparr>a = (7, 8), b = (9, 10)\<rparr>)) \<and>
   AdlerMemcpyC (\<lambda>p. Some 0) 524288 0 4194312 \<lparr>a = (7, 8), b = (9, 10)\<rparr> =
     Some (Inr (False, \<lparr>a = (7, 8), b = (9, 10)\<rparr>, \<lambda>p. Some 0))"
  using C5_boundary [of 4194304 "\<lambda>p. Some 0" 0 524288 "\<lparr>a = (7, 8), b = (9, 10)\<rparr>" 4194312]
  by (simp add: allocated_def)

text \<open>
  Claim C6 says that no lane ever decreases for an input the size check accepts. The
  words and the lanes are both 64 bits wide, so a single large word wraps a lane: for
  the four words \<open>[2 ^ 64 - 1, 0, 0, 0]\<close> the one \<open>increment\<close> of the run takes
  \<open>a0\<close> from 1 down to 0. For the input of all words \<open>2 ^ 64 - 1\<close> the second
  \<open>increment\<close> lowers every lane.
\<close>

theorem C6_lane_wraps:
  "CalculateAdlerChecksum (memory_of 0 [18446744073709551615, 0, 0, 0]) 0 32 AdlerChecksum_init =
     Some (Inr (True, \<lparr>a = (0, 1), b = (0, 2)\<rparr>)) \<and>
   \<not> lanes_le AdlerChecksum_init \<lparr>a = (0, 1), b = (0, 2)\<rparr> \<and>
   \<not> lanes_le
       (increment AdlerChecksum_init
          (18446744073709551615, 18446744073709551615, 18446744073709551615, 18446744073709551615))
       (increment
          (increment AdlerChecksum_init
             (18446744073709551615, 18446744073709551615, 18446744073709551615, 18446744073709551615))
          (18446744073709551615, 18446744073709551615, 18446744073709551615, 18446744073709551615))"
proof -
  have "CalculateAdlerChecksum (memory_of 0 [18446744073709551615, 0, 0, 0]) 0 32 AdlerChecksum_init =
     Some (Inr (True, \<lparr>a = (0, 1), b = (0, 2)\<rparr>))"
    by (simp add: CalculateAdlerChecksum_def CalculateAdlerChecksum_loop.simps load_def
        memory_of_def increment_def AdlerChecksum_init_def)
  then show ?thesis
    by (simp add: lanes_le_def AdlerChecksum_init_def increment_def)
qed

text \<open>
  Claim C7 says that \<^verbatim>\<open>ToHexString\<close> renders four fields and reads only the four
  lanes of the state. The format of the source has eight fields and its arguments
  include \<^verbatim>\<open>a[2]\<close>, \<^verbatim>\<open>a[3]\<close>, \<^verbatim>\<open>b[2]\<close> and \<^verbatim>\<open>b[3]\<close> of two-element
  arrays: every call reads past the lanes.
\<close>

theorem C7_ToHexString_reads_past_the_lanes:
  "ToHexString s = Inl OutOfBounds"
  by (simp add: ToHexString_def array_at_def)

text \<open>
  Claim C8. For every input the warm variant and the accelerated variant return what
  the baseline returns: the same flag, the same checksum and the same memory.
\<close>

theorem C8_variants_equal_baseline:
  "AdlerMemcpyWarmC mem dstmem64 srcmem64 size_in_bytes ck =
     AdlerMemcpyC mem dstmem64 srcmem64 size_in_bytes ck \<and>
   AdlerMemcpyAsm mem dstmem64 srcmem64 size_in_bytes ck =
     AdlerMemcpyC mem dstmem64 srcmem64 size_in_bytes ck"
  by (simp add: AdlerMemcpyWarmC_def AdlerMemcpyAsm_def)

text \<open>
  Claim C9. A call with fewer than 8 bytes (no whole word) succeeds with the fresh
  state \<open>a0 = a1 = 1\<close>, \<open>b0 = b1 = 0\<close> as checksum, whatever the memory and the
  pointers are, and \<^verbatim>\<open>AdlerMemcpyC\<close> leaves the memory as it was.
\<close>

theorem C9_less_than_one_word:
  assumes "size_in_bytes < 8"
  shows "CalculateAdlerChecksum mem data64 size_in_bytes ck =
           Some (Inr (True, \<lparr>a = (1, 1), b = (0, 0)\<rparr>)) \<and>
         AdlerMemcpyC mem dstmem64 srcmem64 size_in_bytes ck =
           Some (Inr (True, \<lparr>a = (1, 1), b = (0, 0)\<rparr>, mem))"
proof -
  from assms have "unat size_in_bytes < 8" by (simp add: word_less_nat_alt)
  then have "unat (size_in_bytes div 8) = 0" by (simp add: unat_div)
  then have z: "size_in_bytes div 8 = 0" by (simp add: unat_eq_0)
  show ?thesis
    by (simp add: CalculateAdlerChecksum_def AdlerMemcpyC_def z
        CalculateAdlerChecksum_loop_exit AdlerMemcpyC_loop_exit AdlerChecksum_init_def)
qed

text \<open>Seven bytes, on a memory with no allocated cell at all.\<close>

theorem C9_witness:
  "CalculateAdlerChecksum (\<lambda>p. None) 0 7 \<lparr>a = (7, 8), b = (9, 10)\<rparr> =
     Some (Inr (True, \<lparr>a = (1, 1), b = (0, 0)\<rparr>)) \<and>
   AdlerMemcpyC (\<lambda>p. None) 8 0 7 \<lparr>a = (7, 8), b = (9, 10)\<rparr> =
     Some (Inr (True, \<lparr>a = (1, 1), b = (0, 0)\<rparr>, \<lambda>p. None))"
  using C9_less_than_one_word [of 7 "\<lambda>p. None" 0 "\<lparr>a = (7, 8), b = (9, 10)\<rparr>" 8 0]
  by simp

text \<open>
  Claim C10. When the word count is a multiple of 4, \<^verbatim>\<open>CalculateAdlerChecksum\<close>
  never touches a cell outside the first word-count words of its buffer; when it is a
  multiple of 8, \<^verbatim>\<open>AdlerMemcpyC\<close> never touches a cell outside the first word-count
  words of its two buffers. Only these words are assumed to be allocated (any other
  access is the error \<open>OutOfBounds\<close>), and both calls return without that error.
\<close>

theorem C10_accesses_in_bounds:
  "(4 dvd unat size_in_bytes div 8 \<and> allocated mem data64 (unat size_in_bytes div 8) \<longrightarrow>
      (\<exists>r. CalculateAdlerChecksum mem data64 size_in_bytes ck = Some (Inr r))) \<and>
   (8 dvd unat size_in_bytes div 8 \<and> allocated mem srcmem64 (unat size_in_bytes div 8) \<and>
    allocated mem dstmem64 (unat size_in_bytes div 8) \<longrightarrow>
      (\<exists>r. AdlerMemcpyC mem dstmem64 srcmem64 size_in_bytes ck = Some (Inr r)))"
proof (intro conjI impI)
  assume h: "4 dvd unat size_in_bytes div 8 \<and> allocated mem data64 (unat size_in_bytes div 8)"
  show "\<exists>r. CalculateAdlerChecksum mem data64 size_in_bytes ck = Some (Inr r)"
  proof (cases "unat size_in_bytes div 8 \<le> 2 ^ 19")
    case True
    then show ?thesis
      using CalculateAdlerChecksum_ok [OF refl True, of mem data64 ck] h by auto
  next
    case False
    then show ?thesis
      using CalculateAdlerChecksum_too_large [of size_in_bytes mem data64 ck] by auto
  qed
next
  assume h: "8 dvd unat size_in_bytes div 8 \<and> allocated mem srcmem64 (unat size_in_bytes div 8) \<and>
    allocated mem dstmem64 (unat size_in_bytes div 8)"
  show "\<exists>r. AdlerMemcpyC mem dstmem64 srcmem64 size_in_bytes ck = Some (Inr r)"
  proof (cases "unat size_in_bytes div 8 \<le> 2 ^ 19")
    case True
    then show ?thesis
      using AdlerMemcpyC_returns [OF refl True, of mem srcmem64 dstmem64 ck] h by auto
  next
    case False
    then show ?thesis
      using AdlerMemcpyC_too_large [of size_in_bytes mem dstmem64 srcmem64 ck] by auto
  qed
qed

text \<open>
  The hypotheses of C10 on memories in which nothing but the buffers is allocated: four
  words at address 5, and eight words copied from address 0 to address 8.
\<close>

theorem C10_witness:
  "(\<exists>r. CalculateAdlerChecksum (memory_of 5 [1, 2, 3, 4]) 5 32 AdlerChecksum_init = Some (Inr r)) \<and>
   (\<exists>r. AdlerMemcpyC (memory_of 0 [1, 2, 3, 4, 5, 6, 7, 8, 0, 0, 0, 0, 0, 0, 0, 0]) 8 0 64
           AdlerChecksum_init = Some (Inr r))"
  using
    C10_accesses_in_bounds [of 32 "memory_of 5 [1, 2, 3, 4]" 5 AdlerChecksum_init 0 0]
    C10_accesses_in_bounds [of 64 "memory_of 0 [1, 2, 3, 4, 5, 6, 7, 8, 0, 0, 0, 0, 0, 0, 0, 0]"
      0 AdlerChecksum_init 0 8]
  by (simp add: allocated_def memory_of_def)

end
